theory Spec2Isabelle
  imports Main
begin

section \<open>JavaScript strings\<close>

text \<open>
  A JavaScript string is a sequence of UTF-16 code units: \<open>length\<close>, \<open>slice\<close>,
  \<open>split("")\<close> and a regular expression without the \<open>u\<close> flag all work on code
  units. The Cyrillic and Greek keys of \<open>homoglyphMap\<close> lie outside ASCII, so the
  model keeps code units, not bytes. A code unit is a number below 65536; the program
  only compares code units and never calculates with them, so they are kept as
  natural numbers. \<open>js\<close> embeds an ASCII literal.
\<close>

type_synonym code_unit = nat
type_synonym jsstring = "code_unit list"

definition js :: "string \<Rightarrow> jsstring" where
  "js s = map of_char s"

text \<open>\<open>s.slice(a, b)\<close> for \<open>0 \<le> a \<le> b\<close>; both ends are clamped to the length.\<close>

definition slice :: "jsstring \<Rightarrow> nat \<Rightarrow> nat \<Rightarrow> jsstring" where
  "slice s a b = take (b - a) (drop a s)"

text \<open>\<open>s.includes(p)\<close>: \<open>p\<close> occurs in \<open>s\<close> as a contiguous block.\<close>

fun str_includes :: "jsstring \<Rightarrow> jsstring \<Rightarrow> bool" where
  "str_includes [] p = (p = [])"
| "str_includes (c # cs) p = (take (length p) (c # cs) = p \<or> str_includes cs p)"

text \<open>A thrown JavaScript error, with its \<open>message\<close>.\<close>

datatype js_error = Error string | AggregateError string

fun error_message :: "js_error \<Rightarrow> string" where
  "error_message (Error m) = m"
| "error_message (AggregateError m) = m"

section \<open>Solana address detection\<close>

text \<open>
  \<open>SOLANA_ADDRESS_REGEX = /[1-9A-HJ-NP-Za-km-z]{32,44}/g\<close>. The character class
  is \<open>is_base58\<close>; \<open>regex_at\<close> is the greedy match of the pattern anchored at the
  start of its argument (at most 44 code units, at least 32).
\<close>

definition between :: "char \<Rightarrow> char \<Rightarrow> code_unit \<Rightarrow> bool" where
  "between lo hi c = (of_char lo \<le> c \<and> c \<le> of_char hi)"

definition is_base58 :: "code_unit \<Rightarrow> bool" where
  "is_base58 c =
     (between (CHR ''1'') (CHR ''9'') c \<or> between (CHR ''A'') (CHR ''H'') c \<or>
      between (CHR ''J'') (CHR ''N'') c \<or> between (CHR ''P'') (CHR ''Z'') c \<or>
      between (CHR ''a'') (CHR ''k'') c \<or> between (CHR ''m'') (CHR ''z'') c)"

definition regex_at :: "jsstring \<Rightarrow> jsstring option" where
  "regex_at s =
     (let run = takeWhile is_base58 (take 44 s)
      in if 32 \<le> length run then Some run else None)"

text \<open>
  \<open>word.match(SOLANA_ADDRESS_REGEX)\<close> with the \<open>g\<close> flag: the search starts at
  index 0 (\<open>match\<close> resets \<open>lastIndex\<close>), takes the leftmost greedy match, goes on
  behind it, and returns every match found, or \<open>null\<close> when there is none.
\<close>

function match_global :: "jsstring \<Rightarrow> jsstring list" where
  "match_global [] = []"
| "match_global (c # cs) =
     (case regex_at (c # cs) of
        Some m \<Rightarrow> m # match_global (drop (length m) (c # cs))
      | None \<Rightarrow> match_global cs)"
  by pat_completeness auto
termination
  by (relation "measure length") (auto simp: regex_at_def Let_def split: if_splits)

definition string_match :: "jsstring \<Rightarrow> jsstring list option" where
  "string_match s = (case match_global s of [] \<Rightarrow> None | m # ms \<Rightarrow> Some (m # ms))"

text \<open>
  The scan loop of the webhook handler:
  \<^verbatim>\<open>
  for (let i = 0; i < combinedText.length; i++) {
    const word = combinedText.slice(i, i + 45);
    const match = word.match(SOLANA_ADDRESS_REGEX);
    if (match) { matches.push(match[0]); }
  }
  \<close>
\<close>

function scan_loop :: "jsstring \<Rightarrow> nat \<Rightarrow> jsstring list \<Rightarrow> jsstring list" where
  "scan_loop combinedText i matches =
     (if i < length combinedText then
        (let word = slice combinedText i (i + 45)
         in case string_match word of
              Some match \<Rightarrow> scan_loop combinedText (i + 1) (matches @ [match ! 0])
            | None \<Rightarrow> scan_loop combinedText (i + 1) matches)
      else matches)"
  by pat_completeness auto
termination
  by (relation "measure (\<lambda>(combinedText, i, matches). length combinedText - i)") auto

declare scan_loop.simps [simp del]

definition find_matches :: "jsstring \<Rightarrow> jsstring list" where
  "find_matches combinedText = scan_loop combinedText 0 []"

text \<open>What the iteration at offset \<open>k\<close> pushes.\<close>

definition window_match :: "jsstring \<Rightarrow> nat \<Rightarrow> jsstring list" where
  "window_match t k =
     (case string_match (slice t k (k + 45)) of Some m \<Rightarrow> [m ! 0] | None \<Rightarrow> [])"


section \<open>Address validation\<close>

text \<open>
  Everything outside the repository that the handler calls is a field of \<open>world\<close>:
  the \<open>PublicKey\<close> class of @solana/web3.js (\<open>'k\<close> is its key object), the
  Unicode tables of the JavaScript runtime, and the network (image download and OCR,
  the mint lookup over RPC, the swap API, signing and sending). A call that throws
  returns \<open>Inl\<close>.
\<close>

record MintInfo =
  mint_decimals :: nat
  mint_supply :: nat
  mint_isInitialized :: bool

record pump_request =
  mint :: jsstring
  inAmount :: nat
  priorityFeeLevel :: string
  slippageBps :: string

record 'k world =
  new_PublicKey :: "jsstring \<Rightarrow> js_error + 'k"
  toBase58 :: "'k \<Rightarrow> js_error + jsstring"
  normalize_NFKC :: "jsstring \<Rightarrow> jsstring"
  toLowerCase_unicode :: "jsstring \<Rightarrow> jsstring"
  fetch_image :: "jsstring \<Rightarrow> js_error + nat list"
  tesseract_recognize :: "nat list \<Rightarrow> js_error + jsstring"
  getMintInfo :: "nat \<Rightarrow> 'k \<Rightarrow> js_error + MintInfo"
  settled_at :: "nat \<Rightarrow> nat"
  pump_fun_swap :: "pump_request \<Rightarrow> js_error + nat list"
  sign_send_confirm :: "nat list \<Rightarrow> js_error + jsstring"

text \<open>
  \<^verbatim>\<open>
  function isValidSolanaAddress(address: string): boolean {
    try {
      const publicKey = new PublicKey(address);
      return publicKey.toBase58() === address;
    } catch (error) { return false; }
  }
  \<close>
  \<open>isValidSolanaAddress_try\<close> is the body of the \<open>try\<close>; the function itself
  returns what the body returns, or \<open>false\<close> from the \<open>catch\<close>.
\<close>

definition isValidSolanaAddress_try :: "'k world \<Rightarrow> jsstring \<Rightarrow> js_error + bool" where
  "isValidSolanaAddress_try W address =
     (case new_PublicKey W address of
        Inl error \<Rightarrow> Inl error
      | Inr publicKey \<Rightarrow>
          (case toBase58 W publicKey of
             Inl error \<Rightarrow> Inl error
           | Inr s \<Rightarrow> Inr (s = address)))"

definition isValidSolanaAddress :: "'k world \<Rightarrow> jsstring \<Rightarrow> js_error + bool" where
  "isValidSolanaAddress W address =
     (case isValidSolanaAddress_try W address of
        Inl error \<Rightarrow> Inr False
      | Inr b \<Rightarrow> Inr b)"

text \<open>
  \<open>s.toLowerCase()\<close>: on a string of ASCII code units it maps \<open>A..Z\<close> to
  \<open>a..z\<close>; any other string is lowered by the runtime's Unicode tables.
\<close>

definition ascii_lower :: "code_unit \<Rightarrow> code_unit" where
  "ascii_lower c = (if between (CHR ''A'') (CHR ''Z'') c then c + 32 else c)"

definition toLowerCase :: "'k world \<Rightarrow> jsstring \<Rightarrow> jsstring" where
  "toLowerCase W s =
     (if list_all (\<lambda>c. c < 128) s then map ascii_lower s else toLowerCase_unicode W s)"

definition BLOCKED_TOKENS :: "'k world \<Rightarrow> jsstring list" where
  "BLOCKED_TOKENS W =
     [toLowerCase W (js ''4Cnk9EPnW5ixfLZatCPJjDB1PUtcRpVVgTQukm9epump''),
      toLowerCase W (js ''FUAfBo2jgks6gB4Z4LfZkqSZgzNucisEHqnNebaRxM1P'')]"

text \<open>
  \<^verbatim>\<open>
  const validAddresses = matches.filter((address) =>
    isValidSolanaAddress(address) && !BLOCKED_TOKENS.includes(address.toLowerCase()));
  \<close>
\<close>

definition validAddresses :: "'k world \<Rightarrow> jsstring list \<Rightarrow> jsstring list" where
  "validAddresses W matches =
     filter (\<lambda>address. isValidSolanaAddress W address = Inr True \<and>
                       toLowerCase W address \<notin> set (BLOCKED_TOKENS W)) matches"

section \<open>Text normalization\<close>

definition homoglyphMap :: "(code_unit \<times> jsstring) list" where
  "homoglyphMap =
     [(0x410, js ''A''), (0x412, js ''B''), (0x421, js ''C''), (0x415, js ''E''),
      (0x41D, js ''H''), (0x406, js ''I''), (0x408, js ''J''), (0x41A, js ''K''),
      (0x41C, js ''M''), (0x41E, js ''O''), (0x420, js ''P''), (0x405, js ''S''),
      (0x422, js ''T''), (0x3A5, js ''Y''), (0x3A7, js ''X''), (0x396, js ''Z''),
      (0x430, js ''a''), (0x435, js ''e''), (0x43E, js ''o''), (0x440, js ''p''),
      (0x441, js ''c''), (0x443, js ''y''), (0x445, js ''x'')]"

text \<open>\<open>homoglyphMap[char] || char\<close>: the entry when there is one and it is not empty.\<close>

definition substitute :: "code_unit \<Rightarrow> jsstring" where
  "substitute char =
     (case map_of homoglyphMap char of
        Some v \<Rightarrow> (if v = [] then [char] else v)
      | None \<Rightarrow> [char])"

text \<open>
  \<^verbatim>\<open>text.normalize("NFKC").split("").map((char) => homoglyphMap[char] || char).join("")\<close>
\<close>

definition normalizeText :: "'k world \<Rightarrow> jsstring \<Rightarrow> jsstring" where
  "normalizeText W text = concat (map substitute (normalize_NFKC W text))"

section \<open>Token information\<close>

record TokenInfo =
  address :: jsstring
  decimals :: nat
  "supply" :: nat
  isInitialized :: bool

text \<open>
  \<^verbatim>\<open>
  async function getTokenInfo(address: string): Promise<TokenInfo | null> {
    try {
      const mint = new PublicKey(address);
      const token = new Token(connection, mint, TOKEN_PROGRAM_ID, null);
      const supply = await token.getMintInfo();
      if (!supply.decimals) { return null; }
      return { address, decimals: supply.decimals, supply: supply.supply.toString(),
               isInitialized: supply.isInitialized };
    } catch (error) { return null; }
  }
  \<close>
  The first component of the result is the list of mint lookups the call sent over
  RPC (none when the constructor throws first); \<open>i\<close> numbers the call, since two
  lookups of one address are two requests with their own outcomes. The decimal
  rendering of \<open>supply\<close> is left out: the field keeps the number.
\<close>

definition getTokenInfo :: "'k world \<Rightarrow> nat \<Rightarrow> jsstring \<Rightarrow> jsstring list \<times> TokenInfo option" where
  "getTokenInfo W i addr =
     (case new_PublicKey W addr of
        Inl error \<Rightarrow> ([], None)
      | Inr mint_key \<Rightarrow>
          ([addr],
           case getMintInfo W i mint_key of
             Inl error \<Rightarrow> None
           | Inr info \<Rightarrow>
               if mint_decimals info = 0 then None
               else Some \<lparr>address = addr, decimals = mint_decimals info,
                          supply = mint_supply info,
                          isInitialized = mint_isInitialized info\<rparr>))"

text \<open>
  \<open>validAddresses.map(async (address) => new Promise(...))\<close>: one promise per
  element of the array, each calling \<open>getTokenInfo\<close> at once. A promise is the time
  at which it settles and its outcome; it rejects when \<open>getTokenInfo\<close> gives
  \<open>null\<close>.
\<close>

definition tokenInfoPromises ::
    "'k world \<Rightarrow> jsstring list \<Rightarrow> (jsstring list \<times> nat \<times> (js_error + TokenInfo)) list" where
  "tokenInfoPromises W valid =
     map (\<lambda>(i, addr).
            case getTokenInfo W i addr of
              (rpc, Some tokenInfo) \<Rightarrow> (rpc, settled_at W i, Inr tokenInfo)
            | (rpc, None) \<Rightarrow> (rpc, settled_at W i, Inl (Error ''No token info found'')))
         (enumerate 0 valid)"

text \<open>
  \<open>Promise.any\<close>: the value of the promise that fulfils first (the earlier array
  element among those settling at the same time), or an \<open>AggregateError\<close> when
  none fulfils.
\<close>

fun earliest :: "nat \<times> 'a \<Rightarrow> (nat \<times> 'a) list \<Rightarrow> nat \<times> 'a" where
  "earliest best [] = best"
| "earliest best (p # ps) = earliest (if fst p < fst best then p else best) ps"

fun fulfilled :: "(nat \<times> (js_error + 'a)) list \<Rightarrow> (nat \<times> 'a) list" where
  "fulfilled [] = []"
| "fulfilled ((t, Inr v) # ps) = (t, v) # fulfilled ps"
| "fulfilled ((t, Inl e) # ps) = fulfilled ps"

definition Promise_any :: "(nat \<times> (js_error + 'a)) list \<Rightarrow> js_error + 'a" where
  "Promise_any promises =
     (case fulfilled promises of
        [] \<Rightarrow> Inl (AggregateError ''All promises were rejected'')
      | p # ps \<Rightarrow> Inr (snd (earliest p ps)))"

section \<open>Trade parameters and the swap request\<close>

definition getAmount :: "jsstring \<Rightarrow> jsstring option \<Rightarrow> nat" where
  "getAmount addr user =
     (if user = Some (js ''DaniilP86141'') then
        (if str_includes addr (js ''pump'') then 10000000 else 100000)
      else if str_includes addr (js ''pump'') then 500000000
      else 1000000000)"

definition maxLamports :: "jsstring option \<Rightarrow> nat" where
  "maxLamports user = (if user = Some (js ''DaniilP86141'') then 100000000 else 1000000000)"

definition priorityLevel :: "jsstring option \<Rightarrow> string" where
  "priorityLevel user = (if user = Some (js ''DaniilP86141'') then ''medium'' else ''veryHigh'')"

text \<open>
  \<open>getPumpTx\<close> (utils/pump.ts): refuses an empty address, then posts the request
  and deserializes the transaction of the answer.
\<close>

definition getPumpTx :: "'k world \<Rightarrow> jsstring \<Rightarrow> nat \<Rightarrow> string \<Rightarrow> js_error + nat list" where
  "getPumpTx W addr amount level =
     (if addr = [] then Inl (Error ''Address is required'')
      else pump_fun_swap W
             \<lparr>mint = addr, inAmount = amount,
              priorityFeeLevel = (if level = ''veryHigh'' then ''extreme'' else level),
              slippageBps = ''5000''\<rparr>)"

section \<open>The webhook handler\<close>

record payload =
  task_user :: "jsstring option"
  data_text :: "jsstring option"
  data_full_text :: "jsstring option"
  data_image :: "jsstring option"

record response =
  http_status :: nat
  status :: string
  message :: string
  source :: "string option"
  error :: "string option"

record result =
  sent :: response
  mint_lookups :: "jsstring list"
  swap_requested :: "(jsstring \<times> nat) option"

text \<open>The class \<open>\s\<close> of a JavaScript regular expression.\<close>

definition is_whitespace :: "code_unit \<Rightarrow> bool" where
  "is_whitespace c =
     (c \<in> {0x9, 0xA, 0xB, 0xC, 0xD, 0x20, 0xA0, 0x1680, 0x2028, 0x2029, 0x202F, 0x205F,
            0x3000, 0xFEFF} \<or> (0x2000 \<le> c \<and> c \<le> 0x200A))"

text \<open>\<open>(req.body.data?.text || "").replace(/\s+/g, "")\<close> and \<open>req.body.data?.full_text || ""\<close>.\<close>

definition or_empty :: "jsstring option \<Rightarrow> jsstring" where
  "or_empty v = (case v of None \<Rightarrow> [] | Some s \<Rightarrow> s)"

definition remove_whitespace :: "jsstring \<Rightarrow> jsstring" where
  "remove_whitespace s = filter (\<lambda>c. \<not> is_whitespace c) s"

definition text_of :: "payload \<Rightarrow> jsstring" where
  "text_of body = remove_whitespace (or_empty (data_text body))"

definition fulltext_of :: "payload \<Rightarrow> jsstring" where
  "fulltext_of body = or_empty (data_full_text body)"

text \<open>\<open>if (imageUrl)\<close>: a missing field and the empty string are both false.\<close>

definition truthy :: "jsstring option \<Rightarrow> bool" where
  "truthy v = (case v of None \<Rightarrow> False | Some s \<Rightarrow> s \<noteq> [])"

definition downloadImage :: "'k world \<Rightarrow> jsstring \<Rightarrow> js_error + nat list" where
  "downloadImage W url = fetch_image W url"

definition extractTextFromImage :: "'k world \<Rightarrow> nat list \<Rightarrow> js_error + jsstring" where
  "extractTextFromImage W imageBuffer = tesseract_recognize W imageBuffer"

text \<open>
  \<^verbatim>\<open>
  let combinedText = normalizeText(fulltext + " " + text);
  if (imageUrl) {
    try {
      const imageBuffer = await downloadImage(imageUrl);
      const imageText = await extractTextFromImage(imageBuffer);
      combinedText += " " + normalizeText(imageText);
    } catch (error) { console.error("Error processing image:", error); }
  }
  \<close>
\<close>

definition image_text :: "'k world \<Rightarrow> payload \<Rightarrow> jsstring option" where
  "image_text W body =
     (if truthy (data_image body) then
        (case downloadImage W (or_empty (data_image body)) of
           Inl e \<Rightarrow> None
         | Inr imageBuffer \<Rightarrow>
             (case extractTextFromImage W imageBuffer of
                Inl e \<Rightarrow> None
              | Inr imageText \<Rightarrow> Some imageText))
      else None)"

definition combinedText :: "'k world \<Rightarrow> payload \<Rightarrow> jsstring" where
  "combinedText W body =
     (let combined = normalizeText W (fulltext_of body @ js '' '' @ text_of body)
      in case image_text W body of
           Some imageText \<Rightarrow> combined @ js '' '' @ normalizeText W imageText
         | None \<Rightarrow> combined)"

definition processed_response :: "jsstring option \<Rightarrow> response" where
  "processed_response imageUrl =
     \<lparr>http_status = 200, status = ''success'',
      message = ''Successfully processed webhook for Solana addresses'',
      source = Some (if truthy imageUrl then ''text and image'' else ''text only''),
      error = None\<rparr>"

definition no_valid_response :: response where
  "no_valid_response =
     \<lparr>http_status = 200, status = ''success'', message = ''No valid token addresses found'',
      source = None, error = None\<rparr>"

definition error_response :: "js_error \<Rightarrow> response" where
  "error_response e =
     \<lparr>http_status = 500, status = ''error'', message = ''Error processing webhook'',
      source = None, error = Some (error_message e)\<rparr>"

text \<open>
  The handler of \<open>POST /webhooks\<close>, behind the signature check. Every \<open>Inl\<close> below
  is an exception reaching the outer \<open>catch\<close>, which answers with status 500.
\<close>

definition trade :: "'k world \<Rightarrow> payload \<Rightarrow> jsstring list \<Rightarrow> TokenInfo \<Rightarrow> result" where
  "trade W body lookups tokenInfo =
     (let amount = getAmount (address tokenInfo) (task_user body);
          requested = Some (address tokenInfo, amount)
      in case getPumpTx W (address tokenInfo) amount (priorityLevel (task_user body)) of
           Inl e \<Rightarrow> \<lparr>sent = error_response e, mint_lookups = lookups, swap_requested = requested\<rparr>
         | Inr transaction \<Rightarrow>
             (case sign_send_confirm W transaction of
                Inl e \<Rightarrow> \<lparr>sent = error_response e, mint_lookups = lookups,
                           swap_requested = requested\<rparr>
              | Inr txid \<Rightarrow> \<lparr>sent = processed_response (data_image body),
                              mint_lookups = lookups, swap_requested = requested\<rparr>))"

definition webhook_handler :: "'k world \<Rightarrow> payload \<Rightarrow> result" where
  "webhook_handler W body =
     (let matches = find_matches (combinedText W body)
      in if matches \<noteq> [] then
           (let valid = validAddresses W matches
            in if valid \<noteq> [] then
                 (let promises = tokenInfoPromises W valid;
                      lookups = concat (map fst promises)
                  in case Promise_any (map snd promises) of
                       Inl e \<Rightarrow> \<lparr>sent = error_response e, mint_lookups = lookups,
                                  swap_requested = None\<rparr>
                     | Inr tokenInfo \<Rightarrow> trade W body lookups tokenInfo)
               else \<lparr>sent = no_valid_response, mint_lookups = [], swap_requested = None\<rparr>)
         else \<lparr>sent = processed_response (data_image body), mint_lookups = [],
                swap_requested = None\<rparr>)"

section \<open>A world to run the handler in\<close>

text \<open>
  To run the handler on concrete payloads the fields of \<open>world\<close> need values. The
  key class follows the library: \<open>bs58.decode\<close> reads the string as a number in
  base 58 over \<open>ALPHABET\<close>, one zero byte for each leading \<open>1\<close>, and throws on
  any other code unit; the constructor demands 32 bytes and keeps them as a number;
  \<open>toBase58\<close> encodes the 32 bytes again.
\<close>

definition ALPHABET :: jsstring where
  "ALPHABET = js ''123456789ABCDEFGHJKLMNPQRSTUVWXYZabcdefghijkmnopqrstuvwxyz''"

fun index_of :: "code_unit \<Rightarrow> jsstring \<Rightarrow> nat option" where
  "index_of c [] = None"
| "index_of c (x # xs) = (if c = x then Some 0 else map_option Suc (index_of c xs))"

fun base58_value :: "nat \<Rightarrow> jsstring \<Rightarrow> nat option" where
  "base58_value acc [] = Some acc"
| "base58_value acc (c # cs) =
     (case index_of c ALPHABET of
        None \<Rightarrow> None
      | Some d \<Rightarrow> base58_value (acc * 58 + d) cs)"

function be_bytes :: "nat \<Rightarrow> nat list" where
  "be_bytes n = (if n = 0 then [] else be_bytes (n div 256) @ [n mod 256])"
  by pat_completeness auto
termination
  by (relation "measure id") auto

declare be_bytes.simps [simp del]

function base58_digits :: "nat \<Rightarrow> jsstring" where
  "base58_digits n = (if n = 0 then [] else base58_digits (n div 58) @ [ALPHABET ! (n mod 58)])"
  by pat_completeness auto
termination
  by (relation "measure id") auto

declare base58_digits.simps [simp del]

definition bytes_value :: "nat list \<Rightarrow> nat" where
  "bytes_value bytes = foldl (\<lambda>acc b. acc * 256 + b) 0 bytes"

definition bs58_decode :: "jsstring \<Rightarrow> js_error + nat list" where
  "bs58_decode s =
     (case base58_value 0 s of
        None \<Rightarrow> Inl (Error ''Non-base58 character'')
      | Some n \<Rightarrow> Inr (replicate (length (takeWhile (\<lambda>c. c = of_char (CHR ''1'')) s)) 0 @ be_bytes n))"

definition bs58_encode :: "nat list \<Rightarrow> jsstring" where
  "bs58_encode bytes =
     replicate (length (takeWhile (\<lambda>b. b = 0) bytes)) (of_char (CHR ''1''))
       @ base58_digits (bytes_value bytes)"

definition PublicKey_new :: "jsstring \<Rightarrow> js_error + nat" where
  "PublicKey_new s =
     (case bs58_decode s of
        Inl e \<Rightarrow> Inl e
      | Inr decoded \<Rightarrow>
          if length decoded \<noteq> 32 then Inl (Error ''Invalid public key input'')
          else Inr (bytes_value decoded))"

definition PublicKey_toBase58 :: "nat \<Rightarrow> js_error + jsstring" where
  "PublicKey_toBase58 bn =
     (let b = be_bytes bn
      in Inr (bs58_encode (replicate (32 - length b) 0 @ b)))"

text \<open>
  NFKC on the texts used below. On ASCII it changes nothing. Over the code units
  \<open>a\<close>, U+0301 (combining acute accent), U+00E1 (a with acute) and U+0430 (Cyrillic
  a) it composes each \<open>a\<close> followed by U+0301 into U+00E1 and leaves the rest:
  Unicode has no composed form of U+0430 with U+0301.
\<close>

fun nfkc_acute :: "jsstring \<Rightarrow> jsstring" where
  "nfkc_acute (a # b # cs) =
     (if a = 0x61 \<and> b = 0x301 then 0xE1 # nfkc_acute cs else a # nfkc_acute (b # cs))"
| "nfkc_acute cs = cs"

text \<open>\<open>offline\<close>: every network call fails (image download, mint lookup, swap API).\<close>

definition offline :: "nat world" where
  "offline =
     \<lparr>new_PublicKey = PublicKey_new, toBase58 = PublicKey_toBase58,
      normalize_NFKC = nfkc_acute, toLowerCase_unicode = (\<lambda>s. s),
      fetch_image = (\<lambda>url. Inl (Error ''fetch failed'')),
      tesseract_recognize = (\<lambda>buffer. Inr []),
      getMintInfo = (\<lambda>i key. Inl (Error ''fetch failed'')),
      settled_at = (\<lambda>i. i),
      pump_fun_swap = (\<lambda>request. Inl (Error ''fetch failed'')),
      sign_send_confirm = (\<lambda>transaction. Inl (Error ''fetch failed''))\<rparr>"

text \<open>
  \<open>reading imageText\<close>: as \<open>offline\<close>, but the image is downloaded and the OCR
  reads \<open>imageText\<close> from it.
\<close>

definition reading :: "jsstring \<Rightarrow> nat world" where
  "reading imageText =
     offline\<lparr>fetch_image := (\<lambda>url. Inr []), tesseract_recognize := (\<lambda>buffer. Inr imageText)\<rparr>"

text \<open>Addresses and payloads for the runs: two mints, a pump.fun token, five tweets.\<close>

definition USDC :: jsstring where
  "USDC = js ''EPjFWdd5AufqSSqeM2qN1xzybapC8G4wEGGkZwyTDt1v''"

definition WSOL :: jsstring where
  "WSOL = js ''So11111111111111111111111111111111111111112''"

definition PUMP :: jsstring where
  "PUMP = js ''9BB6NFEcjBCtnNLFko2FqVQBq8HHM13kCyYcdQbgpump''"

definition tweet :: payload where
  "tweet = \<lparr>task_user = None, data_text = Some USDC, data_full_text = None, data_image = None\<rparr>"

definition noise :: payload where
  "noise = \<lparr>task_user = None, data_text = Some (js ''aaaaaaaaaaaaaaaaaaaaaaaaaaaaaaaa''),
            data_full_text = None, data_image = None\<rparr>"

definition broken :: payload where
  "broken = \<lparr>task_user = None,
             data_text = Some (js ''So1111111111111111111'' @ [0x20, 0xA]
                                 @ js ''1111111111111111111112''),
             data_full_text = Some (js ''new  CA''),
             data_image = Some (js ''https://pbs.twimg.com/media/b.png'')\<rparr>"

definition glued :: payload where
  "glued = \<lparr>task_user = None,
            data_text = Some (js ''So1111111111111111111'' @ [0x20, 0xA]
                                @ js ''1111111111111111111112 now''),
            data_full_text = None, data_image = None\<rparr>"


section \<open>The key class of the world used for runs\<close>

text \<open>
  For the key class above, decoding decides validity: a string that the constructor
  accepts is encoded back to itself, so the comparison in \<open>isValidSolanaAddress\<close>
  never fails after a successful construction.
\<close>

lemma ALPHABET_num:
  "ALPHABET = [49, 50, 51, 52, 53, 54, 55, 56, 57, 65, 66, 67, 68, 69, 70, 71, 72, 74, 75, 76,
     77, 78, 80, 81, 82, 83, 84, 85, 86, 87, 88, 89, 90, 97, 98, 99, 100, 101, 102, 103, 104,
     105, 106, 107, 109, 110, 111, 112, 113, 114, 115, 116, 117, 118, 119, 120, 121, 122]"
  by (simp add: ALPHABET_def js_def)

lemma length_ALPHABET: "length ALPHABET = 58"
  by (simp add: ALPHABET_num)

lemma index_of_nth: "index_of c xs = Some d \<Longrightarrow> d < length xs \<and> xs ! d = c"
  by (induction xs arbitrary: d) (auto split: if_splits)

lemma index_of_one: "index_of 49 ALPHABET = Some 0"
  by (simp add: ALPHABET_num)

lemma index_of_ALPHABET:
  "index_of c ALPHABET =
     (if c = 49 then Some 0 else if c = 50 then Some 1 else if c = 51 then Some 2 else if
      c = 52 then Some 3 else if c = 53 then Some 4 else if c = 54 then Some 5 else if c =
      55 then Some 6 else if c = 56 then Some 7 else if c = 57 then Some 8 else if c = 65
      then Some 9 else if c = 66 then Some 10 else if c = 67 then Some 11 else if c = 68
      then Some 12 else if c = 69 then Some 13 else if c = 70 then Some 14 else if c = 71
      then Some 15 else if c = 72 then Some 16 else if c = 74 then Some 17 else if c = 75
      then Some 18 else if c = 76 then Some 19 else if c = 77 then Some 20 else if c = 78
      then Some 21 else if c = 80 then Some 22 else if c = 81 then Some 23 else if c = 82
      then Some 24 else if c = 83 then Some 25 else if c = 84 then Some 26 else if c = 85
      then Some 27 else if c = 86 then Some 28 else if c = 87 then Some 29 else if c = 88
      then Some 30 else if c = 89 then Some 31 else if c = 90 then Some 32 else if c = 97
      then Some 33 else if c = 98 then Some 34 else if c = 99 then Some 35 else if c = 100
      then Some 36 else if c = 101 then Some 37 else if c = 102 then Some 38 else if c =
      103 then Some 39 else if c = 104 then Some 40 else if c = 105 then Some 41 else if c
      = 106 then Some 42 else if c = 107 then Some 43 else if c = 109 then Some 44 else if
      c = 110 then Some 45 else if c = 111 then Some 46 else if c = 112 then Some 47 else
      if c = 113 then Some 48 else if c = 114 then Some 49 else if c = 115 then Some 50
      else if c = 116 then Some 51 else if c = 117 then Some 52 else if c = 118 then Some
      53 else if c = 119 then Some 54 else if c = 120 then Some 55 else if c = 121 then
      Some 56 else if c = 122 then Some 57 else None)"
  by (simp add: ALPHABET_num)

lemma base58_digits_step:
  assumes "d < 58" "0 < n \<or> 0 < d"
  shows "base58_digits (n * 58 + d) = base58_digits n @ [ALPHABET ! d]"
  using assms by (subst base58_digits.simps) auto

lemma base58_digits_0: "base58_digits 0 = []"
  by (simp add: base58_digits.simps)

lemma base58_value_digits:
  "base58_value acc cs = Some n \<Longrightarrow> 0 < acc \<Longrightarrow> base58_digits n = base58_digits acc @ cs"
proof (induction cs arbitrary: acc)
  case Nil
  then show ?case by simp
next
  case (Cons c cs)
  from Cons.prems(1) obtain d where d: "index_of c ALPHABET = Some d"
    and v: "base58_value (acc * 58 + d) cs = Some n"
    by (auto split: option.splits)
  from index_of_nth [OF d] have dn: "d < 58" "ALPHABET ! d = c"
    by (simp_all add: length_ALPHABET)
  have "base58_digits n = base58_digits (acc * 58 + d) @ cs"
    using Cons.IH [OF v] Cons.prems(2) by simp
  also have "base58_digits (acc * 58 + d) = base58_digits acc @ [c]"
    using base58_digits_step [of d acc] dn Cons.prems(2) by simp
  finally show ?case by simp
qed

lemma base58_value_roundtrip:
  "base58_value 0 s = Some n \<Longrightarrow> base58_digits n = dropWhile (\<lambda>c. c = 49) s"
proof (induction s)
  case Nil
  then show ?case by (simp add: base58_digits_0)
next
  case (Cons c cs)
  from Cons.prems obtain d where d: "index_of c ALPHABET = Some d"
    and v: "base58_value d cs = Some n"
    by (auto split: option.splits)
  from index_of_nth [OF d] have dn: "d < 58" "ALPHABET ! d = c"
    by (simp_all add: length_ALPHABET)
  show ?case
  proof (cases "c = 49")
    case True
    with d have "d = 0" by (simp add: index_of_one)
    with v True Cons.IH show ?thesis by simp
  next
    case False
    with dn have "0 < d" by (cases d) (auto simp: ALPHABET_num)
    then have "base58_digits n = base58_digits d @ cs" using base58_value_digits [OF v] by simp
    moreover have "base58_digits d = [c]"
      using base58_digits_step [of d 0] dn \<open>0 < d\<close> by (simp add: base58_digits_0)
    ultimately show ?thesis using False by simp
  qed
qed

lemma bytes_value_snoc: "bytes_value (bs @ [b]) = bytes_value bs * 256 + b"
  by (simp add: bytes_value_def)

lemma be_bytes_Nil: "be_bytes n = [] \<longleftrightarrow> n = 0"
  by (subst be_bytes.simps) simp

lemma bytes_value_be_bytes: "bytes_value (be_bytes n) = n"
proof (induction n rule: be_bytes.induct)
  case (1 n)
  show ?case
  proof (cases "n = 0")
    case True
    then show ?thesis by (simp add: be_bytes.simps bytes_value_def)
  next
    case False
    with 1 show ?thesis by (subst be_bytes.simps) (simp add: bytes_value_snoc)
  qed
qed

lemma foldl_zeros: "foldl (\<lambda>acc b. acc * 256 + b) 0 (replicate z (0::nat)) = 0"
  by (induction z) simp_all

lemma bytes_value_zeros: "bytes_value (replicate z 0 @ bs) = bytes_value bs"
  by (simp add: bytes_value_def foldl_zeros)

lemma be_bytes_bounds:
  "n \<noteq> 0 \<Longrightarrow> 256 ^ (length (be_bytes n) - 1) \<le> n \<and> n < 256 ^ length (be_bytes n)"
proof (induction n rule: be_bytes.induct)
  case (1 n)
  define m where "m = n div 256"
  have step: "be_bytes n = be_bytes m @ [n mod 256]"
    using "1.prems" unfolding m_def by (subst be_bytes.simps) simp
  show ?case
  proof (cases "m = 0")
    case True
    then have "n < 256" unfolding m_def by (simp add: div_eq_0_iff)
    moreover have "be_bytes m = []" using True by (simp add: be_bytes_Nil)
    ultimately show ?thesis using step "1.prems" by simp
  next
    case False
    define l where "l = length (be_bytes m)"
    have l: "0 < l" using False by (simp add: l_def be_bytes_Nil)
    have ih: "256 ^ (l - 1) \<le> m" "m < 256 ^ l"
      using "1.IH" "1.prems" False unfolding m_def l_def by simp_all
    have "256 ^ l = 256 * (256::nat) ^ (l - 1)" using l by (cases l) simp_all
    also have "\<dots> \<le> 256 * m" using ih(1) by simp
    also have "\<dots> \<le> n" unfolding m_def by simp
    finally have lo: "256 ^ l \<le> n" .
    have "n < 256 * (m + 1)" unfolding m_def by (simp add: dividend_less_times_div)
    also have "\<dots> \<le> 256 * 256 ^ l" using ih(2) by (intro mult_le_mono2) simp
    finally have hi: "n < 256 ^ Suc l" by simp
    show ?thesis using lo hi by (simp add: step l_def)
  qed
qed

lemma be_bytes_head: "be_bytes n \<noteq> [] \<Longrightarrow> hd (be_bytes n) \<noteq> 0"
proof (induction n rule: be_bytes.induct)
  case (1 n)
  have n: "n \<noteq> 0" using "1.prems" by (simp add: be_bytes_Nil)
  then have step: "be_bytes n = be_bytes (n div 256) @ [n mod 256]"
    by (subst be_bytes.simps) simp
  show ?case
  proof (cases "n div 256 = 0")
    case True
    then have "n mod 256 = n" by (simp add: div_eq_0_iff)
    with True step n show ?thesis by (simp add: be_bytes_Nil [THEN iffD2])
  next
    case False
    then have "be_bytes (n div 256) \<noteq> []" by (simp add: be_bytes_Nil)
    with 1 n step show ?thesis by simp
  qed
qed

lemma takeWhile_zeros:
  "b \<noteq> 0 \<Longrightarrow> takeWhile (\<lambda>b. b = 0) (replicate z (0::nat) @ b # bs) = replicate z 0"
  by (induction z) simp_all

lemma leading_zeros: "length (takeWhile (\<lambda>b. b = 0) (replicate z 0 @ be_bytes n)) = z"
proof (cases "be_bytes n")
  case Nil
  then show ?thesis by simp
next
  case (Cons b bs)
  with be_bytes_head [of n] have "b \<noteq> 0" by simp
  with Cons show ?thesis by (simp add: takeWhile_zeros)
qed

lemma PublicKey_roundtrip:
  assumes "PublicKey_new s = Inr bn"
  shows "PublicKey_toBase58 bn = Inr s"
proof -
  define z where "z = length (takeWhile (\<lambda>c. c = 49) s)"
  from assms obtain n where n: "base58_value 0 s = Some n"
    and len: "z + length (be_bytes n) = 32"
    and bn: "bn = bytes_value (replicate z 0 @ be_bytes n)"
    by (auto simp: PublicKey_new_def bs58_decode_def z_def split: option.splits if_splits)
  have bn': "bn = n" using bn by (simp add: bytes_value_zeros bytes_value_be_bytes)
  have "32 - length (be_bytes n) = z" using len by simp
  then have pad: "replicate (32 - length (be_bytes n)) 0 @ be_bytes n = replicate z 0 @ be_bytes n"
    by simp
  have "bs58_encode (replicate z 0 @ be_bytes n) = replicate z 49 @ dropWhile (\<lambda>c. c = 49) s"
    by (simp add: bs58_encode_def leading_zeros bytes_value_zeros bytes_value_be_bytes
          base58_value_roundtrip [OF n])
  also have "replicate z 49 = takeWhile (\<lambda>c. c = 49) s"
    unfolding z_def by (induction s) auto
  finally show ?thesis using pad by (simp add: PublicKey_toBase58_def Let_def bn')
qed

lemma length_be_bytes: "256 ^ k \<le> n \<Longrightarrow> n < 256 ^ Suc k \<Longrightarrow> length (be_bytes n) = Suc k"
proof (induction k arbitrary: n)
  case 0
  then have "n \<noteq> 0" "n div 256 = 0" by simp_all
  then show ?case by (subst be_bytes.simps) (simp add: be_bytes.simps [of 0])
next
  case (Suc k)
  have "(256 * 256 ^ k) div 256 \<le> n div 256"
    using Suc.prems(1) by (intro div_le_mono) simp
  then have lo: "256 ^ k \<le> n div 256" by simp
  have hi: "n div 256 < 256 ^ Suc k"
    using Suc.prems(2) by (intro less_mult_imp_div_less) (simp add: mult.commute)
  have "(0::nat) < 256 ^ Suc (Suc k)" by simp
  then have "n \<noteq> 0" using Suc.prems(1) by (cases "n = 0") simp_all
  with Suc.IH [OF lo hi] show ?case by (subst be_bytes.simps) simp
qed

lemma length_be_bytes_eq:
  "z + length (be_bytes n) = 32 \<longleftrightarrow>
     z \<le> 32 \<and> (if z = 32 then n = 0 else 256 ^ (31 - z) \<le> n \<and> n < 256 ^ (32 - z))"
proof
  assume eq: "z + length (be_bytes n) = 32"
  show "z \<le> 32 \<and> (if z = 32 then n = 0 else 256 ^ (31 - z) \<le> n \<and> n < 256 ^ (32 - z))"
  proof (cases "z = 32")
    case True
    with eq show ?thesis by (simp add: be_bytes_Nil)
  next
    case False
    with eq have len: "length (be_bytes n) = 32 - z" "z < 32" by simp_all
    then have "n \<noteq> 0" using be_bytes_Nil [of n] by auto
    from be_bytes_bounds [OF this] len show ?thesis by simp
  qed
next
  assume r: "z \<le> 32 \<and> (if z = 32 then n = 0 else 256 ^ (31 - z) \<le> n \<and> n < 256 ^ (32 - z))"
  show "z + length (be_bytes n) = 32"
  proof (cases "z = 32")
    case True
    with r show ?thesis by (simp add: be_bytes_Nil [THEN iffD2])
  next
    case False
    with r have z: "z < 32" by simp
    then have "Suc (31 - z) = 32 - z" by simp
    with r False have b: "256 ^ (31 - z) \<le> n" "n < 256 ^ Suc (31 - z)"
      by (simp_all del: power_Suc)
    from length_be_bytes [OF b] z show ?thesis by simp
  qed
qed

lemma PublicKey_new_eval:
  "PublicKey_new s =
     (case base58_value 0 s of
        None \<Rightarrow> Inl (Error ''Non-base58 character'')
      | Some n \<Rightarrow>
          (let z = length (takeWhile (\<lambda>c. c = 49) s)
           in if z \<le> 32 \<and> (if z = 32 then n = 0 else 256 ^ (31 - z) \<le> n \<and> n < 256 ^ (32 - z))
              then Inr n else Inl (Error ''Invalid public key input'')))"
  using length_be_bytes_eq
  by (auto simp: PublicKey_new_def bs58_decode_def Let_def bytes_value_zeros bytes_value_be_bytes
           split: option.splits)

lemma offline_valid: "isValidSolanaAddress offline s = Inr (\<not> isl (PublicKey_new s))"
  using PublicKey_roundtrip [of s]
  by (cases "PublicKey_new s")
     (auto simp: isValidSolanaAddress_def isValidSolanaAddress_try_def offline_def)

lemma BLOCKED_offline:
  "BLOCKED_TOKENS offline =
     [js ''4cnk9epnw5ixflzatcpjjdb1putcrpvvgtqukm9epump'',
      js ''fuafbo2jgks6gb4z4lfzkqszgznucisehqnnebarxm1p'']"
  by (simp add: BLOCKED_TOKENS_def toLowerCase_def ascii_lower_def between_def js_def)

lemmas key_rules = js_def offline_valid PublicKey_new_eval index_of_ALPHABET

lemma USDC_valid: "isValidSolanaAddress offline USDC = Inr True"
  by (simp add: USDC_def key_rules)

lemma WSOL_valid: "isValidSolanaAddress offline WSOL = Inr True"
  by (simp add: WSOL_def key_rules)

lemma PUMP_valid: "isValidSolanaAddress offline PUMP = Inr True"
  by (simp add: PUMP_def key_rules)

section \<open>The scanner\<close>

lemma regex_at_length:
  "regex_at s = Some m \<Longrightarrow> 32 \<le> length m \<and> length m \<le> 44 \<and> length m \<le> length s"
  by (auto simp: regex_at_def Let_def split: if_splits intro: order_trans [OF length_takeWhile_le])

lemma match_global_min_length: "m \<in> set (match_global s) \<Longrightarrow> 32 \<le> length m"
  by (induction s rule: match_global.induct) (auto split: option.splits dest: regex_at_length)

lemma match_global_sum_length: "sum_list (map length (match_global s)) \<le> length s"
proof (induction s rule: match_global.induct)
  case 1
  show ?case by simp
next
  case (2 c cs)
  show ?case
  proof (cases "regex_at (c # cs)")
    case None
    with 2 show ?thesis by simp
  next
    case (Some m)
    with 2 have "sum_list (map length (match_global (drop (length m) (c # cs))))
                   \<le> length (c # cs) - length m"
      by simp
    moreover have "length m \<le> length (c # cs)" using regex_at_length [OF Some] by simp
    ultimately show ?thesis using Some by simp
  qed
qed

lemma match_global_window_single:
  assumes "length w \<le> 45"
  shows "length (match_global w) \<le> 1"
proof (rule ccontr)
  assume "\<not> length (match_global w) \<le> 1"
  then obtain a b rest where ms: "match_global w = a # b # rest"
    by (cases "match_global w"; cases "tl (match_global w)") auto
  have "32 \<le> length a" "32 \<le> length b"
    using match_global_min_length [of a w] match_global_min_length [of b w] ms by auto
  moreover have "length a + length b \<le> length w"
    using match_global_sum_length [of w] ms by simp
  ultimately show False using assms by simp
qed

lemma match_global_short: "length s < 32 \<Longrightarrow> match_global s = []"
  using match_global_min_length [of "hd (match_global s)" s] match_global_sum_length [of s]
  by (cases "match_global s") auto

lemma scan_loop_eq:
  "scan_loop t i acc = acc @ concat (map (window_match t) [i..<length t])"
proof (induction t i acc rule: scan_loop.induct)
  case (1 t i acc)
  show ?case
  proof (cases "i < length t")
    case False
    then show ?thesis by (simp add: scan_loop.simps [of t i acc])
  next
    case True
    then have up: "[i..<length t] = i # [Suc i..<length t]" by (simp add: upt_conv_Cons)
    show ?thesis
    proof (cases "string_match (slice t i (i + 45))")
      case None
      with True 1 up show ?thesis by (simp add: scan_loop.simps [of t i acc] window_match_def)
    next
      case (Some m)
      with True 1 up show ?thesis by (simp add: scan_loop.simps [of t i acc] window_match_def)
    qed
  qed
qed

lemma find_matches_eq: "find_matches t = concat (map (window_match t) [0..<length t])"
  by (simp add: find_matches_def scan_loop_eq)

lemma window_match_in_find_matches:
  "i < length t \<Longrightarrow> m \<in> set (window_match t i) \<Longrightarrow> m \<in> set (find_matches t)"
  by (auto simp: find_matches_eq intro!: bexI [of _ i])

lemma regex_at_prefix:
  assumes a: "list_all is_base58 a" "32 \<le> length a" "length a \<le> 44"
    and r: "length a = 44 \<or> r = [] \<or> \<not> is_base58 (hd r)"
  shows "regex_at (take 45 (a @ r)) = Some a"
proof -
  have all: "\<forall>x\<in>set a. is_base58 x" using a(1) by (simp add: list_all_iff)
  have "take 44 (take 45 (a @ r)) = a @ take (44 - length a) r"
    using a(3) by (simp add: min_def)
  moreover have "takeWhile is_base58 (a @ take (44 - length a) r) = a"
  proof (cases "take (44 - length a) r")
    case Nil
    have "takeWhile is_base58 (a @ []) = a" using all by simp
    then show ?thesis unfolding Nil .
  next
    case (Cons c cs)
    then have "length a \<noteq> 44" "r \<noteq> []" "c = hd r"
      by (cases r; auto simp: take_Cons' split: if_splits)+
    with r have "\<not> is_base58 c" by simp
    with Cons all show ?thesis by (simp add: takeWhile_append2)
  qed
  ultimately show ?thesis using a(2) by (simp add: regex_at_def)
qed

text \<open>Rules to run the scanner on a given text.\<close>

lemma is_base58_num:
  "is_base58 c =
     (0x31 \<le> c \<and> c \<le> 0x39 \<or> 0x41 \<le> c \<and> c \<le> 0x48 \<or> 0x4A \<le> c \<and> c \<le> 0x4E \<or>
      0x50 \<le> c \<and> c \<le> 0x5A \<or> 0x61 \<le> c \<and> c \<le> 0x6B \<or> 0x6D \<le> c \<and> c \<le> 0x7A)"
  by (simp add: is_base58_def between_def)

lemma match_global_long:
  "32 \<le> length s \<Longrightarrow>
     match_global s = (case regex_at s of
                         Some m \<Rightarrow> m # match_global (drop (length m) s)
                       | None \<Rightarrow> match_global (tl s))"
  by (cases s) (auto split: option.splits)

lemmas scan_rules =
  js_def find_matches_eq window_match_def slice_def string_match_def
  match_global_short match_global_long regex_at_def is_base58_num

lemma window_match_eq: "window_match t i = match_global (slice t i (i + 45))"
proof -
  have "length (slice t i (i + 45)) \<le> 45" by (simp add: slice_def)
  then have "length (match_global (slice t i (i + 45))) \<le> 1" by (rule match_global_window_single)
  then show ?thesis
    by (cases "match_global (slice t i (i + 45))") (simp_all add: window_match_def string_match_def)
qed

text \<open>
  C3, as amended. For every window the loop appends exactly what \<open>match\<close> returns for
  that window, and that is at most one string: the leftmost match of the pattern, taken
  greedily (two matches side by side would need 64 code units, a window has 45). Any
  other substring of the window that fits the pattern is not appended for that window.
\<close>

theorem window_pushes_its_only_match:
  "find_matches t = concat (map (\<lambda>i. match_global (slice t i (i + 45))) [0..<length t]) \<and>
   (i < length t \<longrightarrow>
      length (match_global (slice t i (i + 45))) \<le> 1 \<and>
      set (match_global (slice t i (i + 45))) \<subseteq> set (find_matches t))"
proof -
  have eq: "find_matches t = concat (map (\<lambda>i. match_global (slice t i (i + 45))) [0..<length t])"
    by (simp add: find_matches_eq window_match_eq [abs_def])
  have "length (slice t i (i + 45)) \<le> 45" by (simp add: slice_def)
  then have one: "length (match_global (slice t i (i + 45))) \<le> 1"
    by (rule match_global_window_single)
  have "set (match_global (slice t i (i + 45))) \<subseteq> set (find_matches t)" if "i < length t"
    using that window_match_in_find_matches [of i t] by (auto simp: window_match_eq)
  with eq one show ?thesis by blast
qed

lemma WSOL_space_x_matches:
  "find_matches (WSOL @ js '' x'') =
     [js ''So11111111111111111111111111111111111111112'',
      js ''o11111111111111111111111111111111111111112'',
      js ''11111111111111111111111111111111111111112'',
      js ''1111111111111111111111111111111111111112'',
      js ''111111111111111111111111111111111111112'',
      js ''11111111111111111111111111111111111112'',
      js ''1111111111111111111111111111111111112'',
      js ''111111111111111111111111111111111112'',
      js ''11111111111111111111111111111111112'',
      js ''1111111111111111111111111111111112'',
      js ''111111111111111111111111111111112'',
      js ''11111111111111111111111111111112'']"
  by (simp add: WSOL_def scan_rules del: match_global.simps)

theorem window_pushes_its_only_match_witness:
  "(0::nat) < length (WSOL @ js '' x'') \<and>
   match_global (slice (WSOL @ js '' x'') 0 (0 + 45)) = [WSOL] \<and>
   WSOL \<in> set (find_matches (WSOL @ js '' x''))"
proof -
  have l: "(0::nat) < length (WSOL @ js '' x'')" by (simp add: WSOL_def js_def)
  have m: "match_global (slice (WSOL @ js '' x'') 0 (0 + 45)) = [WSOL]"
    by (simp add: WSOL_def js_def slice_def regex_at_def is_base58_num)
  have "set (match_global (slice (WSOL @ js '' x'') 0 (0 + 45)))
          \<subseteq> set (find_matches (WSOL @ js '' x''))"
    using window_pushes_its_only_match [of "WSOL @ js '' x''" 0] l by blast
  with l m show ?thesis by simp
qed

text \<open>
  C3 as stated fails: in the first window of the wrapped-SOL mint followed by a space
  and \<open>x\<close>, the first 32 code units of the mint are a substring that fits the pattern,
  and no window appends them.
\<close>

theorem unmatched_substring_not_pushed:
  "list_all is_base58 (take 32 WSOL) \<and> length (take 32 WSOL) = 32 \<and>
   take 32 (drop 0 (slice (WSOL @ js '' x'') 0 (0 + 45))) = take 32 WSOL \<and>
   take 32 WSOL \<notin> set (find_matches (WSOL @ js '' x''))"
proof -
  have "list_all is_base58 (take 32 WSOL)" "length (take 32 WSOL) = 32"
    by (simp_all add: WSOL_def js_def is_base58_num)
  moreover have "take 32 (drop 0 (slice (WSOL @ js '' x'') 0 (0 + 45))) = take 32 WSOL"
    by (simp add: WSOL_def js_def slice_def)
  moreover have "take 32 WSOL \<notin> set (find_matches (WSOL @ js '' x''))"
    unfolding WSOL_space_x_matches by (simp add: WSOL_def js_def)
  ultimately show ?thesis by simp
qed

lemma found_when_delimited:
  assumes a: "list_all is_base58 a" "32 \<le> length a" "length a \<le> 44"
    and occ: "take (length a) (drop i t) = a"
    and delim: "length a = 44 \<or> i + length a = length t \<or> \<not> is_base58 (t ! (i + length a))"
  shows "a \<in> set (find_matches t)"
proof -
  define r where "r = drop (i + length a) t"
  have len: "i + length a \<le> length t"
  proof (rule ccontr)
    assume "\<not> i + length a \<le> length t"
    moreover have "length (take (length a) (drop i t)) = min (length a) (length t - i)" by simp
    ultimately have "length (take (length a) (drop i t)) < length a" using a(2) by arith
    with occ show False by simp
  qed
  then have i: "i < length t" using a(2) by simp
  have split: "drop i t = a @ r"
    using occ append_take_drop_id [of "length a" "drop i t"] by (simp add: r_def add.commute)
  have "length a = 44 \<or> r = [] \<or> \<not> is_base58 (hd r)"
    using delim len by (auto simp: r_def hd_drop_conv_nth)
  then have "regex_at (take 45 (a @ r)) = Some a" by (rule regex_at_prefix [OF a])
  moreover have "take 45 (a @ r) \<noteq> []" using a(2) by auto
  ultimately have "\<exists>ms. match_global (take 45 (a @ r)) = a # ms"
    by (cases "take 45 (a @ r)") auto
  then have "window_match t i = [a]"
    by (auto simp: window_match_def string_match_def slice_def split)
  with i show ?thesis using window_match_in_find_matches [of i t a] by simp
qed

lemma found_in_context:
  assumes a: "list_all is_base58 a" "32 \<le> length a" "length a \<le> 44"
    and d: "length a = 44 \<or> r = [] \<or> \<not> is_base58 (hd r)"
  shows "a \<in> set (find_matches (x @ a @ r))"
proof (rule found_when_delimited [OF a, where i = "length x"])
  show "take (length a) (drop (length x) (x @ a @ r)) = a" by simp
  show "length a = 44 \<or> length x + length a = length (x @ a @ r)
          \<or> \<not> is_base58 ((x @ a @ r) ! (length x + length a))"
    using d by (cases r) (auto simp: nth_append)
qed

text \<open>
  C2, as amended. An address of 32 to 44 Base58 code units that occurs in the text is
  among the candidates whenever it has 44 code units, or ends the text, or is followed
  by a code unit outside the Base58 class. (Followed by a Base58 code unit, a shorter
  address is swallowed by the greedy match; see the counterexample.)
\<close>

theorem delimited_address_found:
  assumes a: "list_all is_base58 a" "32 \<le> length a" "length a \<le> 44"
    and occ: "take (length a) (drop i t) = a"
    and delim: "length a = 44 \<or> i + length a = length t \<or> \<not> is_base58 (t ! (i + length a))"
  shows "a \<in> set (find_matches t)"
  using a occ delim by (rule found_when_delimited)

theorem delimited_address_found_witness:
  "list_all is_base58 WSOL \<and> 32 \<le> length WSOL \<and> length WSOL \<le> 44 \<and>
   take (length WSOL) (drop 0 (WSOL @ js '' x'')) = WSOL \<and>
   \<not> is_base58 ((WSOL @ js '' x'') ! (0 + length WSOL)) \<and>
   WSOL \<in> set (find_matches (WSOL @ js '' x''))"
proof -
  have a: "list_all is_base58 WSOL" "32 \<le> length WSOL" "length WSOL \<le> 44"
    by (simp_all add: WSOL_def js_def is_base58_num)
  have occ: "take (length WSOL) (drop 0 (WSOL @ js '' x'')) = WSOL" by simp
  have d: "\<not> is_base58 ((WSOL @ js '' x'') ! (0 + length WSOL))"
    by (simp add: WSOL_def js_def is_base58_num)
  have "WSOL \<in> set (find_matches (WSOL @ js '' x''))"
    using delimited_address_found [OF a occ] d by blast
  with a occ d show ?thesis by blast
qed

lemma WSOL_x_matches:
  "find_matches (WSOL @ js ''x'') =
     [js ''So11111111111111111111111111111111111111112x'',
      js ''o11111111111111111111111111111111111111112x'',
      js ''11111111111111111111111111111111111111112x'',
      js ''1111111111111111111111111111111111111112x'',
      js ''111111111111111111111111111111111111112x'',
      js ''11111111111111111111111111111111111112x'',
      js ''1111111111111111111111111111111111112x'',
      js ''111111111111111111111111111111111112x'',
      js ''11111111111111111111111111111111112x'',
      js ''1111111111111111111111111111111112x'',
      js ''111111111111111111111111111111112x'',
      js ''11111111111111111111111111111112x'',
      js ''1111111111111111111111111111112x'']"
  by (simp add: WSOL_def scan_rules del: match_global.simps)

text \<open>
  C2 as stated fails: the wrapped-SOL mint (43 code units, a valid key) at offset 0,
  followed by \<open>x\<close>. Every candidate the scan produces ends in \<open>x\<close>.
\<close>

theorem glued_address_missed:
  "list_all is_base58 WSOL \<and> length WSOL = 43 \<and> isValidSolanaAddress offline WSOL = Inr True \<and>
   take (length WSOL) (drop 0 (WSOL @ js ''x'')) = WSOL \<and>
   WSOL \<notin> set (find_matches (WSOL @ js ''x''))"
proof -
  have "list_all is_base58 WSOL" "length WSOL = 43"
    by (simp_all add: WSOL_def js_def is_base58_num)
  moreover have "WSOL \<notin> set (find_matches (WSOL @ js ''x''))"
    unfolding WSOL_x_matches by (simp add: WSOL_def js_def)
  ultimately show ?thesis using WSOL_valid by simp
qed

section \<open>The validator\<close>

lemma valid_constructs:
  "isValidSolanaAddress W a = Inr True \<Longrightarrow> \<exists>k. new_PublicKey W a = Inr k"
  by (auto simp: isValidSolanaAddress_def isValidSolanaAddress_try_def split: sum.splits)

text \<open>
  C5. \<open>isValidSolanaAddress\<close> always returns a boolean and never throws. It returns
  \<open>true\<close> exactly when the candidate decodes to a key whose encoding is the candidate
  itself; whenever decoding throws, it returns \<open>false\<close>.
\<close>

theorem validator_total_and_roundtrip:
  "(\<exists>b. isValidSolanaAddress W a = Inr b) \<and>
   (isValidSolanaAddress W a = Inr True \<longleftrightarrow>
      (\<exists>k. new_PublicKey W a = Inr k \<and> toBase58 W k = Inr a)) \<and>
   (\<forall>e. new_PublicKey W a = Inl e \<longrightarrow> isValidSolanaAddress W a = Inr False)"
  by (auto simp: isValidSolanaAddress_def isValidSolanaAddress_try_def split: sum.splits)

theorem validator_total_and_roundtrip_witness:
  "isValidSolanaAddress offline USDC = Inr True \<and>
   (\<exists>k. new_PublicKey offline USDC = Inr k \<and> toBase58 offline k = Inr USDC) \<and>
   new_PublicKey offline (js ''EPjFWdd5AufqSSqeM2qN1xzybapC8G4wEGGkZwyTDt1O'')
     = Inl (Error ''Non-base58 character'') \<and>
   isValidSolanaAddress offline (js ''EPjFWdd5AufqSSqeM2qN1xzybapC8G4wEGGkZwyTDt1O'') = Inr False"
proof -
  let ?bad = "js ''EPjFWdd5AufqSSqeM2qN1xzybapC8G4wEGGkZwyTDt1O''"
  have e: "new_PublicKey offline ?bad = Inl (Error ''Non-base58 character'')"
    by (simp add: offline_def key_rules)
  have "\<exists>k. new_PublicKey offline USDC = Inr k \<and> toBase58 offline k = Inr USDC"
    using validator_total_and_roundtrip [of offline USDC] USDC_valid by blast
  moreover have "isValidSolanaAddress offline ?bad = Inr False"
    using validator_total_and_roundtrip [of offline ?bad] e by blast
  ultimately show ?thesis using USDC_valid e by blast
qed

text \<open>
  C6. A candidate whose lowercase form is an entry of \<open>BLOCKED_TOKENS\<close> is never among
  the validated addresses, valid key or not. A candidate whose lowercase form is not
  an entry is kept or dropped by the validator alone: each of its occurrences among
  the matches stays when it is valid.
\<close>

theorem blocklist_filtering:
  "(toLowerCase W a \<in> set (BLOCKED_TOKENS W) \<longrightarrow> a \<notin> set (validAddresses W ms)) \<and>
   (toLowerCase W a \<notin> set (BLOCKED_TOKENS W) \<longrightarrow>
      filter (\<lambda>x. x = a) (validAddresses W ms) =
        (if isValidSolanaAddress W a = Inr True then filter (\<lambda>x. x = a) ms else []))"
proof (intro conjI impI)
  assume "toLowerCase W a \<in> set (BLOCKED_TOKENS W)"
  then show "a \<notin> set (validAddresses W ms)" by (simp add: validAddresses_def)
next
  assume nb: "toLowerCase W a \<notin> set (BLOCKED_TOKENS W)"
  show "filter (\<lambda>x. x = a) (validAddresses W ms) =
        (if isValidSolanaAddress W a = Inr True then filter (\<lambda>x. x = a) ms else [])"
    using nb by (induction ms) (auto simp: validAddresses_def)
qed

lemma RUG_valid:
  "isValidSolanaAddress offline (js ''4Cnk9EPnW5ixfLZatCPJjDB1PUtcRpVVgTQukm9epump'') = Inr True"
  by (simp add: key_rules)

theorem blocklist_filtering_witness:
  "toLowerCase offline (js ''4Cnk9EPnW5ixfLZatCPJjDB1PUtcRpVVgTQukm9epump'')
     \<in> set (BLOCKED_TOKENS offline) \<and>
   isValidSolanaAddress offline (js ''4Cnk9EPnW5ixfLZatCPJjDB1PUtcRpVVgTQukm9epump'') = Inr True \<and>
   js ''4Cnk9EPnW5ixfLZatCPJjDB1PUtcRpVVgTQukm9epump''
     \<notin> set (validAddresses offline [js ''4Cnk9EPnW5ixfLZatCPJjDB1PUtcRpVVgTQukm9epump'', USDC]) \<and>
   toLowerCase offline USDC \<notin> set (BLOCKED_TOKENS offline) \<and>
   filter (\<lambda>x. x = USDC)
     (validAddresses offline [js ''4Cnk9EPnW5ixfLZatCPJjDB1PUtcRpVVgTQukm9epump'', USDC]) = [USDC]"
proof -
  let ?rug = "js ''4Cnk9EPnW5ixfLZatCPJjDB1PUtcRpVVgTQukm9epump''"
  have b: "toLowerCase offline ?rug \<in> set (BLOCKED_TOKENS offline)"
    by (simp add: BLOCKED_offline toLowerCase_def ascii_lower_def between_def js_def)
  have nb: "toLowerCase offline USDC \<notin> set (BLOCKED_TOKENS offline)"
    by (simp add: BLOCKED_offline toLowerCase_def ascii_lower_def between_def js_def USDC_def)
  have ne: "?rug \<noteq> USDC" by (simp add: USDC_def js_def)
  have "?rug \<notin> set (validAddresses offline [?rug, USDC])"
    using blocklist_filtering [of offline ?rug "[?rug, USDC]"] b by blast
  moreover have "filter (\<lambda>x. x = USDC) (validAddresses offline [?rug, USDC]) = [USDC]"
    using blocklist_filtering [of offline USDC "[?rug, USDC]"] nb ne USDC_valid by simp
  ultimately show ?thesis using b nb RUG_valid by blast
qed

section \<open>Normalization\<close>

lemma substitute_twice: "concat (map substitute (substitute c)) = substitute c"
  by (simp add: substitute_def homoglyphMap_def js_def)

lemma substitute_all_twice:
  "concat (map substitute (concat (map substitute s))) = concat (map substitute s)"
  by (induction s) (simp_all add: substitute_twice)

text \<open>
  C7, as amended. The homoglyph substitution is idempotent, and \<open>normalizeText\<close> is
  idempotent on every text whose normalized form NFKC leaves unchanged.
\<close>

theorem normalizeText_idempotent_on_stable:
  "concat (map substitute (concat (map substitute s))) = concat (map substitute s) \<and>
   (normalize_NFKC W (normalizeText W s) = normalizeText W s \<longrightarrow>
      normalizeText W (normalizeText W s) = normalizeText W s)"
  by (simp add: normalizeText_def substitute_all_twice)

theorem normalizeText_idempotent_on_stable_witness:
  "normalizeText offline [0x421, 0x410] = js ''CA'' \<and>
   normalize_NFKC offline (normalizeText offline [0x421, 0x410])
     = normalizeText offline [0x421, 0x410] \<and>
   normalizeText offline (normalizeText offline [0x421, 0x410])
     = normalizeText offline [0x421, 0x410]"
proof -
  have v: "normalizeText offline [0x421, 0x410] = js ''CA''"
    by (simp add: normalizeText_def offline_def substitute_def homoglyphMap_def js_def)
  have st: "normalize_NFKC offline (normalizeText offline [0x421, 0x410])
              = normalizeText offline [0x421, 0x410]"
    unfolding v by (simp add: offline_def js_def)
  show ?thesis
    using v st normalizeText_idempotent_on_stable [of "[0x421, 0x410]" offline] by blast
qed

text \<open>
  C7 as stated fails: Cyrillic a (U+0430) with a combining acute accent (U+0301).
  NFKC leaves the pair alone and the substitution makes it Latin a with the accent;
  normalizing that again, NFKC composes the two into U+00E1.
\<close>

theorem normalizeText_not_idempotent:
  "normalizeText offline [0x430, 0x301] = [0x61, 0x301] \<and>
   normalizeText offline (normalizeText offline [0x430, 0x301]) = [0xE1]"
  by (simp add: normalizeText_def offline_def substitute_def homoglyphMap_def js_def)

section \<open>The trade size\<close>

text \<open>
  C8, as amended. For a fixed user, two addresses that agree on containing \<open>pump\<close> get
  the same amount: the amount is chosen by the user and by that one property of the
  address.
\<close>

theorem amount_by_user_and_pump:
  "str_includes a1 (js ''pump'') = str_includes a2 (js ''pump'')
     \<Longrightarrow> getAmount a1 user = getAmount a2 user"
  by (simp add: getAmount_def)

theorem amount_by_user_and_pump_witness:
  "str_includes USDC (js ''pump'') = str_includes WSOL (js ''pump'') \<and>
   getAmount USDC None = getAmount WSOL None"
proof -
  have h: "str_includes USDC (js ''pump'') = str_includes WSOL (js ''pump'')"
    by (simp add: USDC_def WSOL_def js_def)
  show ?thesis using h amount_by_user_and_pump [OF h, of None] by simp
qed

text \<open>
  C8 as stated fails: for one user, a pump.fun token and the USDC mint, both valid
  keys, get different amounts.
\<close>

theorem amount_depends_on_address:
  "isValidSolanaAddress offline PUMP = Inr True \<and> isValidSolanaAddress offline USDC = Inr True \<and>
   getAmount PUMP None = 500000000 \<and> getAmount USDC None = 1000000000"
proof -
  have "getAmount PUMP None = 500000000" by (simp add: getAmount_def PUMP_def js_def)
  moreover have "getAmount USDC None = 1000000000" by (simp add: getAmount_def USDC_def js_def)
  ultimately show ?thesis using PUMP_valid USDC_valid by simp
qed

section \<open>Preprocessing\<close>

lemma substitute_low: "c < 0x396 \<Longrightarrow> substitute c = [c]"
  by (simp add: substitute_def homoglyphMap_def)

lemma nfkc_acute_id: "0x301 \<notin> set s \<Longrightarrow> nfkc_acute s = s"
  by (induction s rule: nfkc_acute.induct) auto

lemma normalizeText_plain:
  assumes "normalize_NFKC W = nfkc_acute" and a: "\<forall>c \<in> set s. c < 128"
  shows "normalizeText W s = s"
proof -
  from a have "0x301 \<notin> set s" by auto
  then have "normalize_NFKC W s = s" using assms(1) by (simp add: nfkc_acute_id)
  moreover have "concat (map substitute s) = s"
    using a by (induction s) (simp_all add: substitute_low)
  ultimately show ?thesis by (simp add: normalizeText_def)
qed

lemma normalizeText_ascii: "\<forall>c \<in> set s. c < 128 \<Longrightarrow> normalizeText offline s = s"
  by (rule normalizeText_plain) (simp_all add: offline_def)

lemma base58_not_whitespace: "is_base58 c \<Longrightarrow> \<not> is_whitespace c"
  by (auto simp: is_base58_num is_whitespace_def)

lemma remove_whitespace_split:
  assumes "list_all is_whitespace w" "list_all is_base58 (a1 @ a2)"
  shows "remove_whitespace (p @ a1 @ w @ a2 @ q)
           = remove_whitespace p @ a1 @ a2 @ remove_whitespace q"
proof -
  have "filter (\<lambda>c. \<not> is_whitespace c) w = []"
    using assms(1) by (simp add: list_all_iff filter_empty_conv)
  moreover have "filter (\<lambda>c. \<not> is_whitespace c) a1 = a1" "filter (\<lambda>c. \<not> is_whitespace c) a2 = a2"
    using assms(2) by (auto simp: list_all_iff filter_id_conv dest: base58_not_whitespace)
  ultimately show ?thesis by (simp add: remove_whitespace_def)
qed

lemmas text_rules =
  combinedText_def text_of_def fulltext_of_def or_empty_def remove_whitespace_def
  image_text_def truthy_def is_whitespace_def downloadImage_def normalizeText_ascii

text \<open>
  C9, as amended. No whitespace is left in the \<open>text\<close> field before it is normalized
  and scanned, and nothing else is taken out of it; \<open>full_text\<close> and the text read from
  the image go to the normalizer as they are. An address split by whitespace in
  \<open>text\<close> is contiguous afterwards. When normalization leaves the joined text as it
  is, the address is a candidate if it has 44 code units, or only whitespace follows
  it in the field, or the next code unit behind it that is not whitespace is outside
  the Base58 class. (Removing the whitespace also glues the address to what follows;
  see the counterexample.)
\<close>

theorem text_whitespace_removed_address_rejoined:
  "(\<forall>c \<in> set (text_of body). \<not> is_whitespace c) \<and>
   text_of body = filter (\<lambda>c. \<not> is_whitespace c) (or_empty (data_text body)) \<and>
   combinedText W body =
     normalizeText W (or_empty (data_full_text body) @ js '' '' @ text_of body)
       @ (case image_text W body of
            Some imageText \<Rightarrow> js '' '' @ normalizeText W imageText
          | None \<Rightarrow> []) \<and>
   (data_text body = Some (p @ a1 @ w @ a2 @ q) \<and> list_all is_whitespace w \<and>
    list_all is_base58 (a1 @ a2) \<and> 32 \<le> length (a1 @ a2) \<and> length (a1 @ a2) \<le> 44 \<and>
    normalizeText W (or_empty (data_full_text body) @ js '' '' @ text_of body)
      = or_empty (data_full_text body) @ js '' '' @ text_of body \<and>
    (length (a1 @ a2) = 44 \<or> remove_whitespace q = []
       \<or> \<not> is_base58 (hd (remove_whitespace q)))
    \<longrightarrow> text_of body = remove_whitespace p @ a1 @ a2 @ remove_whitespace q \<and>
        a1 @ a2 \<in> set (find_matches (combinedText W body)))"
proof -
  let ?F = "or_empty (data_full_text body)"
  let ?img = "case image_text W body of
                Some imageText \<Rightarrow> js '' '' @ normalizeText W imageText | None \<Rightarrow> []"
  have basic:
    "(\<forall>c \<in> set (text_of body). \<not> is_whitespace c) \<and>
     text_of body = filter (\<lambda>c. \<not> is_whitespace c) (or_empty (data_text body)) \<and>
     combinedText W body = normalizeText W (?F @ js '' '' @ text_of body) @ ?img"
    by (simp add: text_of_def fulltext_of_def remove_whitespace_def combinedText_def Let_def
             split: option.splits)
  have joined:
    "text_of body = remove_whitespace p @ a1 @ a2 @ remove_whitespace q \<and>
     a1 @ a2 \<in> set (find_matches (combinedText W body))"
    if t: "data_text body = Some (p @ a1 @ w @ a2 @ q)" and w: "list_all is_whitespace w"
      and a: "list_all is_base58 (a1 @ a2)" "32 \<le> length (a1 @ a2)" "length (a1 @ a2) \<le> 44"
      and st: "normalizeText W (?F @ js '' '' @ text_of body) = ?F @ js '' '' @ text_of body"
      and d: "length (a1 @ a2) = 44 \<or> remove_whitespace q = []
                \<or> \<not> is_base58 (hd (remove_whitespace q))"
  proof -
    have tx: "text_of body = remove_whitespace p @ a1 @ a2 @ remove_whitespace q"
      using t remove_whitespace_split [OF w a(1)] by (simp add: text_of_def or_empty_def)
    have sp: "\<not> is_base58 (hd (js '' '' @ xs))" for xs
      by (simp add: js_def is_base58_num)
    have d': "length (a1 @ a2) = 44 \<or> remove_whitespace q @ ?img = []
                \<or> \<not> is_base58 (hd (remove_whitespace q @ ?img))"
    proof (cases "remove_whitespace q")
      case Nil
      then show ?thesis using sp by (cases "image_text W body") simp_all
    next
      case (Cons c cs)
      with d show ?thesis by simp
    qed
    have "combinedText W body
            = (?F @ js '' '' @ remove_whitespace p) @ (a1 @ a2) @ (remove_whitespace q @ ?img)"
      using basic st tx by simp
    moreover have "a1 @ a2 \<in> set (find_matches
            ((?F @ js '' '' @ remove_whitespace p) @ (a1 @ a2) @ (remove_whitespace q @ ?img)))"
      by (rule found_in_context [OF a d'])
    ultimately show ?thesis using tx by simp
  qed
  from basic joined show ?thesis by blast
qed

theorem text_whitespace_removed_address_rejoined_witness:
  "text_of broken = WSOL \<and>
   image_text (reading (js ''to the  moon'')) broken = Some (js ''to the  moon'') \<and>
   combinedText (reading (js ''to the  moon'')) broken
     = js ''new  CA '' @ WSOL @ js '' to the  moon'' \<and>
   WSOL \<in> set (find_matches (combinedText (reading (js ''to the  moon'')) broken))"
proof -
  let ?W = "reading (js ''to the  moon'')"
  let ?a1 = "js ''So1111111111111111111''"
  let ?a2 = "js ''1111111111111111111112''"
  have j: "?a1 @ ?a2 = WSOL" by (simp add: WSOL_def js_def)
  have t: "text_of broken = WSOL"
    by (simp add: broken_def text_of_def or_empty_def remove_whitespace_def is_whitespace_def
          WSOL_def js_def)
  have i: "image_text ?W broken = Some (js ''to the  moon'')"
    by (simp add: broken_def image_text_def truthy_def or_empty_def downloadImage_def
          extractTextFromImage_def reading_def js_def)
  have nf: "normalize_NFKC ?W = nfkc_acute" by (simp add: reading_def offline_def)
  have n1: "normalizeText ?W (js ''new  CA '' @ WSOL) = js ''new  CA '' @ WSOL"
    by (rule normalizeText_plain [OF nf]) (simp add: WSOL_def js_def)
  have n2: "normalizeText ?W (js ''to the  moon'') = js ''to the  moon''"
    by (rule normalizeText_plain [OF nf]) (simp add: js_def)
  have f: "or_empty (data_full_text broken) @ js '' '' @ WSOL = js ''new  CA '' @ WSOL"
    by (simp add: broken_def or_empty_def js_def)
  have h: "data_text broken = Some ([] @ ?a1 @ [0x20, 0xA] @ ?a2 @ []) \<and>
           list_all is_whitespace [0x20, 0xA] \<and> list_all is_base58 (?a1 @ ?a2) \<and>
           32 \<le> length (?a1 @ ?a2) \<and> length (?a1 @ ?a2) \<le> 44 \<and>
           normalizeText ?W (or_empty (data_full_text broken) @ js '' '' @ text_of broken)
             = or_empty (data_full_text broken) @ js '' '' @ text_of broken \<and>
           (length (?a1 @ ?a2) = 44 \<or> remove_whitespace [] = []
              \<or> \<not> is_base58 (hd (remove_whitespace [])))"
    unfolding t f n1 j
    by (simp add: broken_def is_whitespace_def remove_whitespace_def WSOL_def js_def is_base58_num)
  from text_whitespace_removed_address_rejoined [of broken ?W "[]" ?a1 "[0x20, 0xA]" ?a2 "[]"] h
  have "?a1 @ ?a2 \<in> set (find_matches (combinedText ?W broken))" by blast
  then have c: "WSOL \<in> set (find_matches (combinedText ?W broken))" unfolding j .
  from text_whitespace_removed_address_rejoined [of broken ?W "[]" ?a1 "[0x20, 0xA]" ?a2 "[]"]
  have "combinedText ?W broken =
          normalizeText ?W (or_empty (data_full_text broken) @ js '' '' @ text_of broken)
            @ (case image_text ?W broken of
                 Some imageText \<Rightarrow> js '' '' @ normalizeText ?W imageText
               | None \<Rightarrow> [])"
    by blast
  then have "combinedText ?W broken = (js ''new  CA '' @ WSOL) @ js '' '' @ js ''to the  moon''"
    unfolding t i f n1 by (simp add: n2)
  also have "\<dots> = js ''new  CA '' @ WSOL @ js '' to the  moon''" by (simp add: js_def)
  finally have "combinedText ?W broken = js ''new  CA '' @ WSOL @ js '' to the  moon''" .
  with t i c show ?thesis by blast
qed

lemma glued_matches:
  "find_matches (js '' '' @ WSOL @ js ''now'') =
     [js ''So11111111111111111111111111111111111111112n'',
      js ''So11111111111111111111111111111111111111112n'',
      js ''o11111111111111111111111111111111111111112no'',
      js ''11111111111111111111111111111111111111112now'',
      js ''1111111111111111111111111111111111111112now'',
      js ''111111111111111111111111111111111111112now'',
      js ''11111111111111111111111111111111111112now'',
      js ''1111111111111111111111111111111111112now'',
      js ''111111111111111111111111111111111112now'',
      js ''11111111111111111111111111111111112now'',
      js ''1111111111111111111111111111111112now'',
      js ''111111111111111111111111111111112now'',
      js ''11111111111111111111111111111112now'',
      js ''1111111111111111111111111111112now'',
      js ''111111111111111111111111111112now'',
      js ''11111111111111111111111111112now'']"
  by (simp add: WSOL_def scan_rules del: match_global.simps)

text \<open>
  C9 as stated fails: the wrapped-SOL mint split by a space and a newline and followed
  by \<open>now\<close> in the \<open>text\<close> field. The whitespace goes, the two halves join, and so
  does \<open>now\<close>: every candidate holding the whole mint also holds the \<open>n\<close>.
\<close>

theorem rejoined_address_glued_to_next_word:
  "text_of glued = WSOL @ js ''now'' \<and>
   combinedText offline glued = js '' '' @ WSOL @ js ''now'' \<and>
   WSOL \<notin> set (find_matches (combinedText offline glued))"
proof -
  have t: "text_of glued = WSOL @ js ''now''"
    by (simp add: glued_def text_of_def or_empty_def remove_whitespace_def is_whitespace_def
          WSOL_def js_def)
  have c: "combinedText offline glued = js '' '' @ WSOL @ js ''now''"
    by (simp add: glued_def WSOL_def text_rules Let_def js_def)
  have "WSOL \<notin> set (find_matches (js '' '' @ WSOL @ js ''now''))"
    unfolding glued_matches by (simp add: WSOL_def js_def)
  with t c show ?thesis by simp
qed

section \<open>The handler\<close>

lemma fulfilled_none: "\<forall>p \<in> set ps. isl (snd p) \<Longrightarrow> fulfilled ps = []"
  by (induction ps rule: fulfilled.induct) auto


lemma promises_all_rejected:
  assumes "\<forall>(i, a) \<in> set (enumerate 0 valid). snd (getTokenInfo W i a) = None"
  shows "Promise_any (map snd (tokenInfoPromises W valid))
           = Inl (AggregateError ''All promises were rejected'')"
proof -
  have "\<forall>p \<in> set (map snd (tokenInfoPromises W valid)). isl (snd p)"
    using assms by (fastforce simp: tokenInfoPromises_def split: prod.splits option.splits)
  then show ?thesis by (simp add: Promise_any_def fulfilled_none)
qed

lemma lookups_of_valid:
  assumes "\<forall>a \<in> set valid. \<exists>k. new_PublicKey W a = Inr k"
  shows "concat (map fst (tokenInfoPromises W valid)) = valid"
proof -
  have "map fst (tokenInfoPromises W valid) = map (\<lambda>(i, a). [a]) (enumerate 0 valid)"
    unfolding tokenInfoPromises_def map_map
  proof (rule map_cong [OF refl])
    fix p assume pin: "p \<in> set (enumerate 0 valid)"
    obtain i a where p: "p = (i, a)" by (cases p)
    with pin have "(i, a) \<in> set (zip [0..<0 + length valid] valid)"
      by (simp only: enumerate_eq_zip)
    then have "a \<in> set valid" by (rule set_zip_rightD)
    then have "snd p \<in> set valid" using p by simp
    with assms obtain k where "new_PublicKey W (snd p) = Inr k" by blast
    then show "(fst \<circ> (\<lambda>(i, addr). case getTokenInfo W i addr of
                    (rpc, Some tokenInfo) \<Rightarrow> (rpc, settled_at W i, Inr tokenInfo)
                  | (rpc, None) \<Rightarrow> (rpc, settled_at W i, Inl (Error ''No token info found'')))) p
               = (case p of (i, a) \<Rightarrow> [a])"
      by (cases p) (simp add: getTokenInfo_def split: option.splits sum.splits)
  qed
  also have "concat \<dots> = concat (map (\<lambda>a. [a]) (map snd (enumerate 0 valid)))"
    by (simp add: map_map comp_def case_prod_unfold)
  finally show ?thesis by simp
qed

text \<open>The runs: a tweet naming the USDC mint, one of Base58 noise, one with a picture.\<close>

lemma offline_lookup_none: "snd (getTokenInfo offline i a) = None"
  by (simp add: getTokenInfo_def offline_def split: sum.splits)

lemma tweet_combined:
  "combinedText offline tweet = js '' EPjFWdd5AufqSSqeM2qN1xzybapC8G4wEGGkZwyTDt1v''"
  by (simp add: tweet_def USDC_def text_rules Let_def js_def)

lemma tweet_matches:
  "find_matches (js '' EPjFWdd5AufqSSqeM2qN1xzybapC8G4wEGGkZwyTDt1v'') =
     [js ''EPjFWdd5AufqSSqeM2qN1xzybapC8G4wEGGkZwyTDt1v'',
      js ''EPjFWdd5AufqSSqeM2qN1xzybapC8G4wEGGkZwyTDt1v'',
      js ''PjFWdd5AufqSSqeM2qN1xzybapC8G4wEGGkZwyTDt1v'',
      js ''jFWdd5AufqSSqeM2qN1xzybapC8G4wEGGkZwyTDt1v'',
      js ''FWdd5AufqSSqeM2qN1xzybapC8G4wEGGkZwyTDt1v'',
      js ''Wdd5AufqSSqeM2qN1xzybapC8G4wEGGkZwyTDt1v'',
      js ''dd5AufqSSqeM2qN1xzybapC8G4wEGGkZwyTDt1v'',
      js ''d5AufqSSqeM2qN1xzybapC8G4wEGGkZwyTDt1v'',
      js ''5AufqSSqeM2qN1xzybapC8G4wEGGkZwyTDt1v'',
      js ''AufqSSqeM2qN1xzybapC8G4wEGGkZwyTDt1v'',
      js ''ufqSSqeM2qN1xzybapC8G4wEGGkZwyTDt1v'',
      js ''fqSSqeM2qN1xzybapC8G4wEGGkZwyTDt1v'',
      js ''qSSqeM2qN1xzybapC8G4wEGGkZwyTDt1v'',
      js ''SSqeM2qN1xzybapC8G4wEGGkZwyTDt1v'']"
  by (simp add: scan_rules del: match_global.simps)

lemma tweet_valid:
  "validAddresses offline
     [js ''EPjFWdd5AufqSSqeM2qN1xzybapC8G4wEGGkZwyTDt1v'',
      js ''EPjFWdd5AufqSSqeM2qN1xzybapC8G4wEGGkZwyTDt1v'',
      js ''PjFWdd5AufqSSqeM2qN1xzybapC8G4wEGGkZwyTDt1v'',
      js ''jFWdd5AufqSSqeM2qN1xzybapC8G4wEGGkZwyTDt1v'',
      js ''FWdd5AufqSSqeM2qN1xzybapC8G4wEGGkZwyTDt1v'',
      js ''Wdd5AufqSSqeM2qN1xzybapC8G4wEGGkZwyTDt1v'',
      js ''dd5AufqSSqeM2qN1xzybapC8G4wEGGkZwyTDt1v'',
      js ''d5AufqSSqeM2qN1xzybapC8G4wEGGkZwyTDt1v'',
      js ''5AufqSSqeM2qN1xzybapC8G4wEGGkZwyTDt1v'',
      js ''AufqSSqeM2qN1xzybapC8G4wEGGkZwyTDt1v'',
      js ''ufqSSqeM2qN1xzybapC8G4wEGGkZwyTDt1v'',
      js ''fqSSqeM2qN1xzybapC8G4wEGGkZwyTDt1v'',
      js ''qSSqeM2qN1xzybapC8G4wEGGkZwyTDt1v'',
      js ''SSqeM2qN1xzybapC8G4wEGGkZwyTDt1v''] =
     [js ''EPjFWdd5AufqSSqeM2qN1xzybapC8G4wEGGkZwyTDt1v'',
      js ''EPjFWdd5AufqSSqeM2qN1xzybapC8G4wEGGkZwyTDt1v'',
      js ''PjFWdd5AufqSSqeM2qN1xzybapC8G4wEGGkZwyTDt1v'']"
  by (simp add: validAddresses_def key_rules BLOCKED_offline toLowerCase_def ascii_lower_def
        between_def)

lemma tweet_candidates_valid:
  "validAddresses offline (find_matches (combinedText offline tweet)) =
     [USDC, USDC, js ''PjFWdd5AufqSSqeM2qN1xzybapC8G4wEGGkZwyTDt1v'']"
  by (simp only: tweet_combined tweet_matches tweet_valid USDC_def)

lemma tweet_has_matches: "find_matches (combinedText offline tweet) \<noteq> []"
  by (simp add: tweet_combined tweet_matches)

lemma noise_candidates:
  "find_matches (combinedText offline noise) =
     [js ''aaaaaaaaaaaaaaaaaaaaaaaaaaaaaaaa'', js ''aaaaaaaaaaaaaaaaaaaaaaaaaaaaaaaa'']"
proof -
  have "combinedText offline noise = js '' aaaaaaaaaaaaaaaaaaaaaaaaaaaaaaaa''"
    by (simp add: noise_def text_rules Let_def js_def)
  then show ?thesis by (simp add: scan_rules del: match_global.simps)
qed

lemma noise_candidates_valid:
  "validAddresses offline (find_matches (combinedText offline noise)) = []"
  unfolding noise_candidates by (simp add: validAddresses_def key_rules)




text \<open>
  C1, as amended. When the scanner finds a candidate and every lookup that is made
  fails: if no candidate passes validation and the block list, the caller gets the
  success-shaped \<open>No valid token addresses found\<close>; if some candidate passes, the
  rejection of \<open>Promise.any\<close> reaches the outer \<open>catch\<close> and the caller gets the
  error response with status 500.
\<close>

theorem all_lookups_fail_response:
  assumes "find_matches (combinedText W body) \<noteq> []"
    and "\<forall>(i, a) \<in> set (enumerate 0 (validAddresses W (find_matches (combinedText W body)))).
           snd (getTokenInfo W i a) = None"
  shows "sent (webhook_handler W body) =
           (if validAddresses W (find_matches (combinedText W body)) = [] then no_valid_response
            else error_response (AggregateError ''All promises were rejected''))"
  using assms(1) promises_all_rejected [OF assms(2)]
  by (simp add: webhook_handler_def Let_def)

theorem all_lookups_fail_response_witness:
  "find_matches (combinedText offline noise) \<noteq> [] \<and>
   sent (webhook_handler offline noise) = no_valid_response \<and>
   find_matches (combinedText offline tweet) \<noteq> [] \<and>
   sent (webhook_handler offline tweet)
     = error_response (AggregateError ''All promises were rejected'')"
proof -
  have n: "find_matches (combinedText offline noise) \<noteq> []" by (simp add: noise_candidates)
  have t: "find_matches (combinedText offline tweet) \<noteq> []" by (rule tweet_has_matches)
  have f: "\<forall>(i, a) \<in> set (enumerate 0 (validAddresses offline (find_matches (combinedText offline b)))).
             snd (getTokenInfo offline i a) = None" for b
    by (simp add: offline_lookup_none case_prod_unfold)
  have "sent (webhook_handler offline noise) = no_valid_response"
    using all_lookups_fail_response [OF n f] by (simp add: noise_candidates_valid)
  moreover have "sent (webhook_handler offline tweet)
                   = error_response (AggregateError ''All promises were rejected'')"
    using all_lookups_fail_response [OF t f] by (simp add: tweet_candidates_valid)
  ultimately show ?thesis using n t by blast
qed

text \<open>
  C1 as stated fails: the tweet names the USDC mint, the scanner finds it, three
  candidates pass validation, all three lookups fail, and the caller gets the error
  response, not a success-shaped one.
\<close>

theorem all_lookups_fail_is_error:
  "find_matches (combinedText offline tweet) \<noteq> [] \<and>
   map (snd \<circ> snd)
     (tokenInfoPromises offline (validAddresses offline (find_matches (combinedText offline tweet))))
     = [Inl (Error ''No token info found''), Inl (Error ''No token info found''),
        Inl (Error ''No token info found'')] \<and>
   sent (webhook_handler offline tweet) =
     \<lparr>http_status = 500, status = ''error'', message = ''Error processing webhook'',
      source = None, error = Some ''All promises were rejected''\<rparr>"
proof -
  have p: "map (snd \<circ> snd)
     (tokenInfoPromises offline (validAddresses offline (find_matches (combinedText offline tweet))))
     = [Inl (Error ''No token info found''), Inl (Error ''No token info found''),
        Inl (Error ''No token info found'')]"
    unfolding tweet_candidates_valid
    by (simp add: tokenInfoPromises_def enumerate_eq_zip getTokenInfo_def offline_def upt_rec
             split: sum.splits)
  have "Promise_any (map snd (tokenInfoPromises offline
           (validAddresses offline (find_matches (combinedText offline tweet)))))
          = Inl (AggregateError ''All promises were rejected'')"
    by (rule promises_all_rejected) (simp add: offline_lookup_none case_prod_unfold)
  then have "sent (webhook_handler offline tweet) =
     \<lparr>http_status = 500, status = ''error'', message = ''Error processing webhook'',
      source = None, error = Some ''All promises were rejected''\<rparr>"
    by (simp add: webhook_handler_def Let_def tweet_has_matches tweet_candidates_valid
          error_response_def)
  with p tweet_has_matches show ?thesis by blast
qed

text \<open>
  C4, as amended. The handler sends one mint lookup for each entry of the validated
  sequence, in order, an address that occurs twice being looked up twice.
\<close>

theorem one_lookup_per_entry:
  "mint_lookups (webhook_handler W body) = validAddresses W (find_matches (combinedText W body))"
proof -
  let ?valid = "validAddresses W (find_matches (combinedText W body))"
  have "\<forall>a \<in> set ?valid. \<exists>k. new_PublicKey W a = Inr k"
    by (auto simp: validAddresses_def dest: valid_constructs)
  then have "concat (map fst (tokenInfoPromises W ?valid)) = ?valid" by (rule lookups_of_valid)
  then show ?thesis
    by (auto simp: webhook_handler_def Let_def trade_def validAddresses_def split: sum.splits)
qed

text \<open>
  C4 as stated fails: for the tweet, three lookups are sent for two distinct
  addresses; the USDC mint is looked up twice.
\<close>

theorem duplicate_address_looked_up_twice:
  "mint_lookups (webhook_handler offline tweet) =
     [USDC, USDC, js ''PjFWdd5AufqSSqeM2qN1xzybapC8G4wEGGkZwyTDt1v''] \<and>
   length (mint_lookups (webhook_handler offline tweet)) = 3 \<and>
   length (remdups (validAddresses offline (find_matches (combinedText offline tweet)))) = 2"
proof -
  have v: "\<forall>a \<in> set [USDC, USDC, js ''PjFWdd5AufqSSqeM2qN1xzybapC8G4wEGGkZwyTDt1v''].
             \<exists>k. new_PublicKey offline a = Inr k"
    using tweet_candidates_valid [symmetric]
    by (auto simp: validAddresses_def dest: valid_constructs)
  have "Promise_any (map snd (tokenInfoPromises offline
           [USDC, USDC, js ''PjFWdd5AufqSSqeM2qN1xzybapC8G4wEGGkZwyTDt1v'']))
          = Inl (AggregateError ''All promises were rejected'')"
    by (rule promises_all_rejected) (simp add: offline_lookup_none case_prod_unfold)
  then have "mint_lookups (webhook_handler offline tweet) =
               [USDC, USDC, js ''PjFWdd5AufqSSqeM2qN1xzybapC8G4wEGGkZwyTDt1v'']"
    using lookups_of_valid [OF v]
    by (simp add: webhook_handler_def Let_def tweet_has_matches tweet_candidates_valid)
  moreover have "USDC \<noteq> js ''PjFWdd5AufqSSqeM2qN1xzybapC8G4wEGGkZwyTDt1v''"
    by (simp add: USDC_def js_def)
  ultimately show ?thesis by (simp add: tweet_candidates_valid)
qed

end
